theory Spec2Isabelle
  imports Complex_Main
begin

section \<open>Python values and errors\<close>

text \<open>
  Python strings are modelled as Isabelle strings. Characters below 128 are ASCII; the
  case mapping, the digit test and the whitespace test below are those of Python on
  ASCII text, and every other character stands for a code point without case that is
  neither a digit nor white space. The bullet glyph U+2022 is such a character.
\<close>

datatype error =
    IndexError
  | KeyError
  | TypeError
  | ValueError
  | TemplateError
  | EditOperationError

definition bullet :: char where
  "bullet = CHR 0x95"

definition backslash :: char where
  "backslash = CHR 0x5C"

definition lower_char :: "char \<Rightarrow> char" where
  "lower_char c =
     (case map_of (zip ''ABCDEFGHIJKLMNOPQRSTUVWXYZ'' ''abcdefghijklmnopqrstuvwxyz'') c of
        Some d \<Rightarrow> d
      | None \<Rightarrow> c)"

definition lower :: "string \<Rightarrow> string" where
  "lower s = map lower_char s"

definition is_digit_char :: "char \<Rightarrow> bool" where
  "is_digit_char c = (c \<in> set ''0123456789'')"

definition digit_value :: "char \<Rightarrow> nat" where
  "digit_value c =
     (case map_of (zip ''0123456789'' [0, 1, 2, 3, 4, 5, 6, 7, 8, 9]) c of
        Some d \<Rightarrow> d
      | None \<Rightarrow> 0)"

definition isdigit :: "string \<Rightarrow> bool" where
  "isdigit s = (s \<noteq> [] \<and> list_all is_digit_char s)"

definition py_int :: "string \<Rightarrow> error + nat" where
  "py_int s =
     (if s \<noteq> [] \<and> list_all is_digit_char s
      then Inr (foldl (\<lambda>a c. 10 * a + digit_value c) 0 s)
      else Inl ValueError)"

definition is_space_char :: "char \<Rightarrow> bool" where
  "is_space_char c = ((of_char c :: nat) \<in> {9, 10, 11, 12, 13, 28, 29, 30, 31, 32})"

definition strip :: "string \<Rightarrow> string" where
  "strip s = rev (dropWhile is_space_char (rev (dropWhile is_space_char s)))"

fun split_on :: "char \<Rightarrow> string \<Rightarrow> string list" where
  "split_on sep [] = [[]]"
| "split_on sep (c # cs) =
     (if c = sep then [] # split_on sep cs
      else (case split_on sep cs of
              w # ws \<Rightarrow> (c # w) # ws
            | [] \<Rightarrow> [[c]]))"

fun py_in :: "string \<Rightarrow> string \<Rightarrow> bool" where
  "py_in s [] = (s = [])"
| "py_in s (c # cs) = (take (length s) (c # cs) = s \<or> py_in s cs)"

section \<open>The data tree and path resolution (resume\_processor.py)\<close>

datatype json =
    JNull
  | JBool bool
  | JNum int
  | JStr string
  | JList "json list"
  | JDict "(string \<times> json) list"

text \<open>
  \<open>JNull\<close> is Python's \<open>None\<close>: what \<open>json.loads\<close> gives for \<open>null\<close>, and what
  \<open>_get_nested_json_value\<close> returns for a path that leads nowhere.
  The three partial operations of the loop body raise as in Python.
\<close>

definition list_getitem :: "json \<Rightarrow> nat \<Rightarrow> error + json" where
  "list_getitem v i =
     (case v of
        JList xs \<Rightarrow> (if i < length xs then Inr (xs ! i) else Inl IndexError)
      | _ \<Rightarrow> Inl TypeError)"

definition dict_getitem :: "json \<Rightarrow> string \<Rightarrow> error + json" where
  "dict_getitem v k =
     (case v of
        JDict kvs \<Rightarrow> (case map_of kvs k of Some x \<Rightarrow> Inr x | None \<Rightarrow> Inl KeyError)
      | _ \<Rightarrow> Inl TypeError)"

definition is_list :: "json \<Rightarrow> bool" where
  "is_list v = (case v of JList xs \<Rightarrow> True | _ \<Rightarrow> False)"

definition is_dict :: "json \<Rightarrow> bool" where
  "is_dict v = (case v of JDict kvs \<Rightarrow> True | _ \<Rightarrow> False)"

definition list_len :: "json \<Rightarrow> nat" where
  "list_len v = (case v of JList xs \<Rightarrow> length xs | _ \<Rightarrow> 0)"

definition key_in :: "string \<Rightarrow> json \<Rightarrow> bool" where
  "key_in k v = (case v of JDict kvs \<Rightarrow> map_of kvs k \<noteq> None | _ \<Rightarrow> False)"

text \<open>The \<open>for key in keys\<close> loop of \<open>_get_nested_json_value\<close>, inside its \<open>try\<close>.\<close>

fun nested_loop :: "json \<Rightarrow> string list \<Rightarrow> error + json" where
  "nested_loop v [] = Inr v"
| "nested_loop v (key # keys) =
     (if isdigit key then
        (if is_list v then
           (case py_int key of
              Inl e \<Rightarrow> Inl e
            | Inr i \<Rightarrow>
                (if i < list_len v then
                   (case list_getitem v i of
                      Inl e \<Rightarrow> Inl e
                    | Inr v' \<Rightarrow> nested_loop v' keys)
                 else Inr JNull))
         else Inr JNull)
      else
        (if is_dict v \<and> key_in key v then
           (case dict_getitem v key of
              Inl e \<Rightarrow> Inl e
            | Inr v' \<Rightarrow> nested_loop v' keys)
         else Inr JNull))"

definition get_nested_json_value :: "json \<Rightarrow> string \<Rightarrow> error + json" where
  "get_nested_json_value data path =
     (case nested_loop data (split_on (CHR ''.'') path) of
        Inr v \<Rightarrow> Inr v
      | Inl e \<Rightarrow>
          (if e \<in> {KeyError, IndexError, TypeError, ValueError} then Inr JNull else Inl e))"





section \<open>Library functions on strings (str and re)\<close>

text \<open>
  \<open>re.escape\<close> makes the search string a literal pattern, so matching it at a position is
  a comparison with the text there, under \<open>re.IGNORECASE\<close> of the lower-cased operands.
\<close>

definition fold_case :: "bool \<Rightarrow> string \<Rightarrow> string" where
  "fold_case case_sensitive s = (if case_sensitive then s else lower s)"

definition matches_here :: "bool \<Rightarrow> string \<Rightarrow> string \<Rightarrow> bool" where
  "matches_here case_sensitive pat txt =
     (take (length pat) (fold_case case_sensitive txt) = fold_case case_sensitive pat)"

text \<open>
  \<open>re.finditer\<close> for a literal pattern: the spans \<open>(start, end)\<close> of the leftmost
  non-overlapping matches, \<open>pos\<close> being the offset of \<open>txt\<close> in the whole text. The
  empty pattern matches, empty, at every position up to the end of the text.
\<close>

function finditer :: "bool \<Rightarrow> string \<Rightarrow> string \<Rightarrow> nat \<Rightarrow> (nat \<times> nat) list" where
  "finditer case_sensitive pat txt pos =
     (if pat = [] then map (\<lambda>i. (i, i)) [pos ..< pos + length txt + 1]
      else if txt = [] then []
      else if matches_here case_sensitive pat txt
        then (pos, pos + length pat)
               # finditer case_sensitive pat (drop (length pat) txt) (pos + length pat)
      else finditer case_sensitive pat (tl txt) (Suc pos))"
  by pat_completeness auto
termination
  by (relation "measure (\<lambda>(cs, pat, txt, pos). length txt)") auto

text \<open>\<open>str.replace\<close> and \<open>str.count\<close>.\<close>

function py_replace :: "string \<Rightarrow> string \<Rightarrow> string \<Rightarrow> string" where
  "py_replace txt old new =
     (if old = [] then new @ concat (map (\<lambda>c. c # new) txt)
      else if txt = [] then []
      else if take (length old) txt = old
        then new @ py_replace (drop (length old) txt) old new
      else hd txt # py_replace (tl txt) old new)"
  by pat_completeness auto
termination
  by (relation "measure (\<lambda>(txt, old, new). length txt)") auto

function py_count :: "string \<Rightarrow> string \<Rightarrow> nat" where
  "py_count txt old =
     (if old = [] then length txt + 1
      else if txt = [] then 0
      else if take (length old) txt = old
        then Suc (py_count (drop (length old) txt) old)
      else py_count (tl txt) old)"
  by pat_completeness auto
termination
  by (relation "measure (\<lambda>(txt, old). length txt)") auto

text \<open>
  The replacement template of \<open>re.sub\<close>, parsed as the \<open>re\<close> module does for a pattern
  with \<open>groups\<close> capturing groups: \<open>\g<n>\<close> and \<open>\n\<close> refer to a group, \<open>\0\<close> and three
  octal digits give a character, the escapes \<open>\a \b \f \n \r \t \v \\\<close> give theirs, any
  other escaped ASCII letter and a trailing backslash are errors, and any other escaped
  character stays as it is, with its backslash. \<open>TemplateError\<close> stands for the exception
  the parser raises.
\<close>

datatype titem = TLit string | TGroup nat

definition is_oct_char :: "char \<Rightarrow> bool" where
  "is_oct_char c = (c \<in> set ''01234567'')"

definition is_ascii_letter :: "char \<Rightarrow> bool" where
  "is_ascii_letter c =
     (c \<in> set ''abcdefghijklmnopqrstuvwxyzABCDEFGHIJKLMNOPQRSTUVWXYZ'')"

definition oct_value :: "string \<Rightarrow> nat" where
  "oct_value s = foldl (\<lambda>a c. 8 * a + digit_value c) 0 s"

definition dec_value :: "string \<Rightarrow> nat" where
  "dec_value s = foldl (\<lambda>a c. 10 * a + digit_value c) 0 s"

definition escape_char :: "char \<Rightarrow> char option" where
  "escape_char c =
     map_of [(CHR ''a'', CHR 0x07), (CHR ''b'', CHR 0x08), (CHR ''f'', CHR 0x0C),
             (CHR ''n'', CHR 0x0A), (CHR ''r'', CHR 0x0D), (CHR ''t'', CHR 0x09),
             (CHR ''v'', CHR 0x0B), (CHR 0x5C, CHR 0x5C)] c"

definition tcons :: "titem \<Rightarrow> error + titem list \<Rightarrow> error + titem list" where
  "tcons x r = (case r of Inl e \<Rightarrow> Inl e | Inr xs \<Rightarrow> Inr (x # xs))"

function parse_template :: "nat \<Rightarrow> string \<Rightarrow> error + titem list" where
  "parse_template groups s =
     (case s of
        [] \<Rightarrow> Inr []
      | this # s1 \<Rightarrow>
          if this \<noteq> backslash then tcons (TLit [this]) (parse_template groups s1)
          else
            (case s1 of
               [] \<Rightarrow> Inl TemplateError
             | c # s2 \<Rightarrow>
                 if c = CHR ''g'' then
                   (if take 1 s2 \<noteq> ''<'' then Inl TemplateError
                    else if CHR ''>'' \<notin> set (drop 1 s2) then Inl TemplateError
                    else
                      (let name = takeWhile (\<lambda>x. x \<noteq> CHR ''>'') (drop 1 s2);
                           s3 = drop 1 (dropWhile (\<lambda>x. x \<noteq> CHR ''>'') (drop 1 s2))
                       in if name = [] \<or> \<not> list_all is_digit_char name then Inl TemplateError
                          else if dec_value name > groups then Inl TemplateError
                          else tcons (TGroup (dec_value name)) (parse_template groups s3)))
                 else if c = CHR ''0'' then
                   (let ds = takeWhile is_oct_char (take 2 s2)
                    in tcons (TLit [char_of (oct_value ds mod 256)])
                         (parse_template groups (drop (length ds) s2)))
                 else if is_digit_char c then
                   (if s2 \<noteq> [] \<and> is_digit_char (hd s2) then
                      (if is_oct_char c \<and> is_oct_char (hd s2)
                          \<and> tl s2 \<noteq> [] \<and> is_oct_char (hd (tl s2))
                       then
                         (if oct_value [c, hd s2, hd (tl s2)] > 255 then Inl TemplateError
                          else tcons (TLit [char_of (oct_value [c, hd s2, hd (tl s2)])])
                                 (parse_template groups (drop 2 s2)))
                       else if dec_value [c, hd s2] > groups then Inl TemplateError
                       else tcons (TGroup (dec_value [c, hd s2]))
                              (parse_template groups (drop 1 s2)))
                    else if dec_value [c] > groups then Inl TemplateError
                    else tcons (TGroup (dec_value [c])) (parse_template groups s2))
                 else
                   (case escape_char c of
                      Some x \<Rightarrow> tcons (TLit [x]) (parse_template groups s2)
                    | None \<Rightarrow>
                        if is_ascii_letter c then Inl TemplateError
                        else tcons (TLit [this, c]) (parse_template groups s2))))"
  by pat_completeness auto
termination
proof (relation "measure (\<lambda>(groups, s). length s)", goal_cases)
  case 1
  show ?case by simp
next
  case (3 groups s this s1 c s2 name s3)
  have "length (dropWhile (\<lambda>x. x \<noteq> CHR ''>'') (drop 1 s2)) \<le> length s2"
    by (rule order_trans [OF length_dropWhile_le]) simp
  with 3 show ?case by simp
qed auto

definition expand_template :: "titem list \<Rightarrow> string \<Rightarrow> string" where
  "expand_template items whole =
     concat (map (\<lambda>it. case it of TLit s \<Rightarrow> s | TGroup n \<Rightarrow> whole) items)"

text \<open>
  \<open>re.sub\<close> puts, for each match span and from left to right, the result of a function of
  the matched text in the place of the match.
\<close>

fun sub_spans :: "(nat \<times> nat) list \<Rightarrow> (string \<Rightarrow> string) \<Rightarrow> string \<Rightarrow> nat \<Rightarrow> string" where
  "sub_spans [] f txt pos = drop pos txt"
| "sub_spans ((s, e) # ms) f txt pos =
     take (s - pos) (drop pos txt) @ f (take (e - s) (drop s txt)) @ sub_spans ms f txt e"

definition re_sub_ignorecase :: "string \<Rightarrow> string \<Rightarrow> string \<Rightarrow> error + string" where
  "re_sub_ignorecase search repl txt =
     (case parse_template 0 repl of
        Inl e \<Rightarrow> Inl e
      | Inr items \<Rightarrow>
          Inr (sub_spans (finditer False search txt 0) (expand_template items) txt 0))"

section \<open>The document model (python-docx, as docx\_processor.py uses it)\<close>

text \<open>
  A run has a text and the six properties the processor reads and writes. Lengths are in
  English Metric Units, as \<open>Inches\<close> and \<open>Pt\<close> give them.
\<close>

record run =
  run_text :: string
  bold :: "bool option"
  italic :: "bool option"
  underline :: "bool option"
  font_name :: "string option"
  font_size :: "int option"
  font_color :: "(nat \<times> nat \<times> nat) option"

text \<open>The dictionary that \<open>_extract_run_formatting\<close> builds.\<close>

record formatting =
  fmt_bold :: "bool option"
  fmt_italic :: "bool option"
  fmt_underline :: "bool option"
  fmt_font_name :: "string option"
  fmt_font_size :: "int option"
  fmt_font_color :: "(nat \<times> nat \<times> nat) option"

record para =
  runs :: "run list"
  style :: "string option"
  left_indent :: "int option"
  first_line_indent :: "int option"
  space_after :: "int option"
  line_spacing :: "rat option"

text \<open>
  The children of the document body, in document order. A table is its rows, a row its
  cells, a cell its paragraphs. \<open>styles\<close> holds the names of the document's styles.
\<close>

datatype block = Para para | Tbl "para list list list"

record document =
  body :: "block list"
  styles :: "string list"

definition paragraph_text :: "para \<Rightarrow> string" where
  "paragraph_text p = concat (map run_text (runs p))"

definition doc_paragraphs :: "document \<Rightarrow> para list" where
  "doc_paragraphs d = concat (map (\<lambda>b. case b of Para p \<Rightarrow> [p] | Tbl t \<Rightarrow> []) (body d))"

definition doc_tables :: "document \<Rightarrow> para list list list list" where
  "doc_tables d = concat (map (\<lambda>b. case b of Para p \<Rightarrow> [] | Tbl t \<Rightarrow> [t]) (body d))"

text \<open>A new paragraph, as \<open>document.add_paragraph()\<close> makes it, and a new run.\<close>

definition empty_paragraph :: para where
  "empty_paragraph =
     \<lparr>runs = [], style = None, left_indent = None, first_line_indent = None,
      space_after = None, line_spacing = None\<rparr>"

definition add_run :: "string \<Rightarrow> run" where
  "add_run t =
     \<lparr>run_text = t, bold = None, italic = None, underline = None,
      font_name = None, font_size = None, font_color = None\<rparr>"

definition extract_run_formatting :: "run \<Rightarrow> formatting" where
  "extract_run_formatting r =
     \<lparr>fmt_bold = bold r, fmt_italic = italic r, fmt_underline = underline r,
      fmt_font_name = font_name r, fmt_font_size = font_size r,
      fmt_font_color = (if font_color r \<noteq> None then font_color r else None)\<rparr>"

text \<open>
  \<open>_apply_run_formatting\<close> tests the first three entries with \<open>is not None\<close> and the last
  three for truth: an empty font name and a font size of zero are false in Python, a colour
  (a triple) is true.
\<close>

definition apply_run_formatting :: "run \<Rightarrow> formatting \<Rightarrow> run" where
  "apply_run_formatting r f =
     (let r1 = (if fmt_bold f \<noteq> None then r\<lparr>bold := fmt_bold f\<rparr> else r);
          r2 = (if fmt_italic f \<noteq> None then r1\<lparr>italic := fmt_italic f\<rparr> else r1);
          r3 = (if fmt_underline f \<noteq> None then r2\<lparr>underline := fmt_underline f\<rparr> else r2);
          r4 = (if fmt_font_name f \<noteq> None \<and> fmt_font_name f \<noteq> Some []
                then r3\<lparr>font_name := fmt_font_name f\<rparr> else r3);
          r5 = (if fmt_font_size f \<noteq> None \<and> fmt_font_size f \<noteq> Some 0
                then r4\<lparr>font_size := fmt_font_size f\<rparr> else r4)
      in (if fmt_font_color f \<noteq> None then r5\<lparr>font_color := fmt_font_color f\<rparr> else r5))"

text \<open>
  \<open>_apply_bullet_formatting\<close>: the style becomes \<open>List Paragraph\<close> when the document has
  it; the indents are \<open>Inches(0.5)\<close> and \<open>Inches(-0.25)\<close>, the space after \<open>Pt(3)\<close>.
\<close>

definition apply_bullet_formatting :: "document \<Rightarrow> para \<Rightarrow> para" where
  "apply_bullet_formatting d p =
     (let p1 = (if ''List Paragraph'' \<in> set (styles d)
                then p\<lparr>style := Some ''List Paragraph''\<rparr> else p)
      in p1\<lparr>left_indent := Some 457200, first_line_indent := Some (- 228600),
             space_after := Some 38100, line_spacing := Some (115 / 100)\<rparr>)"

section \<open>Replacement in one paragraph\<close>

text \<open>
  The character map of \<open>_replace_with_formatting_preservation\<close>: one entry per character
  of the paragraph, with the formatting of its run. (The entries' \<open>run\<close> and \<open>position\<close>
  are never read and are left out.)
\<close>

type_synonym char_map = "(char \<times> formatting) list"

definition char_to_run_map :: "para \<Rightarrow> char_map" where
  "char_to_run_map p =
     concat (map (\<lambda>r. map (\<lambda>c. (c, extract_run_formatting r)) (run_text r)) (runs p))"

text \<open>
  The loop over the reversed matches: \<open>char_to_run_map[start_pos]\<close> raises IndexError
  beyond the end of the list, and the slice assignment replaces the matched entries by the
  replacement's characters, each with the formatting of the first matched character.
\<close>

fun process_matches ::
  "(nat \<times> nat) list \<Rightarrow> string \<Rightarrow> char_map \<Rightarrow> nat \<Rightarrow> error + (char_map \<times> nat)" where
  "process_matches [] repl m n = Inr (m, n)"
| "process_matches ((start_pos, end_pos) # ms) repl m n =
     (if start_pos < length m then
        process_matches ms repl
          (take start_pos m @ map (\<lambda>c. (c, snd (m ! start_pos))) repl @ drop end_pos m)
          (n + 1)
      else Inl IndexError)"

text \<open>\<open>_rebuild_paragraph_with_formatting\<close>, after \<open>paragraph.clear()\<close>.\<close>

fun rebuild_loop :: "char_map \<Rightarrow> string \<Rightarrow> formatting \<Rightarrow> run list \<Rightarrow> run list" where
  "rebuild_loop [] current_text current_formatting acc =
     (if current_text \<noteq> []
      then acc @ [apply_run_formatting (add_run current_text) current_formatting]
      else acc)"
| "rebuild_loop (item # items) current_text current_formatting acc =
     (if snd item = current_formatting
      then rebuild_loop items (current_text @ [fst item]) current_formatting acc
      else rebuild_loop items [fst item] (snd item)
             (if current_text \<noteq> []
              then acc @ [apply_run_formatting (add_run current_text) current_formatting]
              else acc))"

definition rebuild_paragraph_with_formatting :: "para \<Rightarrow> char_map \<Rightarrow> para" where
  "rebuild_paragraph_with_formatting p m =
     (if m = [] then p\<lparr>runs := []\<rparr>
      else p\<lparr>runs := rebuild_loop m [] (snd (hd m)) []\<rparr>)"

definition replace_with_formatting_preservation ::
  "para \<Rightarrow> string \<Rightarrow> string \<Rightarrow> bool \<Rightarrow> error + (para \<times> nat)" where
  "replace_with_formatting_preservation p search_text replace_text case_sensitive =
     (let m = char_to_run_map p;
          full_text = map fst m;
          matches = finditer case_sensitive search_text full_text 0
      in if matches = [] then Inr (p, 0)
         else
           (case process_matches (rev matches) replace_text m 0 of
              Inl e \<Rightarrow> Inl e
            | Inr (m', replacements_made) \<Rightarrow>
                if replacements_made > 0
                then Inr (rebuild_paragraph_with_formatting p m', replacements_made)
                else Inr (p, replacements_made)))"

definition replace_text_in_paragraph ::
  "string \<Rightarrow> string \<Rightarrow> bool \<Rightarrow> bool \<Rightarrow> para \<Rightarrow> error + (para \<times> nat)" where
  "replace_text_in_paragraph search_text replace_text preserve_formatting case_sensitive p =
     (if runs p = [] then Inr (p, 0)
      else
        (let full_text = paragraph_text p
         in if \<not> (if case_sensitive then py_in search_text full_text
                  else py_in (lower search_text) (lower full_text))
            then Inr (p, 0)
            else if preserve_formatting
              then replace_with_formatting_preservation p search_text replace_text case_sensitive
            else
              (case (if case_sensitive then Inr (py_replace full_text search_text replace_text)
                     else re_sub_ignorecase search_text replace_text full_text) of
                 Inl e \<Rightarrow> Inl e
               | Inr new_text \<Rightarrow>
                   if new_text \<noteq> full_text
                   then Inr (p\<lparr>runs := [add_run new_text]\<rparr>,
                             if case_sensitive then py_count full_text search_text
                             else length (finditer False search_text full_text 0))
                   else Inr (p, 0))))"

section \<open>Replacement in the whole document\<close>

text \<open>
  A \<open>for\<close> loop that adds to the running count and mutates its elements in place: an
  exception in the body leaves the loop, the elements already visited keep their new
  content and the others are untouched.
\<close>

fun for_each ::
  "('a \<Rightarrow> nat \<Rightarrow> 'a \<times> (error + nat)) \<Rightarrow> 'a list \<Rightarrow> nat \<Rightarrow> 'a list \<times> (error + nat)" where
  "for_each g [] n = ([], Inr n)"
| "for_each g (x # xs) n =
     (case g x n of
        (x', Inl e) \<Rightarrow> (x' # xs, Inl e)
      | (x', Inr n') \<Rightarrow>
          (case for_each g xs n' of (xs', r) \<Rightarrow> (x' # xs', r)))"

definition paragraph_step ::
  "(para \<Rightarrow> error + (para \<times> nat)) \<Rightarrow> para \<Rightarrow> nat
     \<Rightarrow> para \<times> (error + nat)" where
  "paragraph_step f p n =
     (case f p of
        Inl e \<Rightarrow> (p, Inl e)
      | Inr (p', k) \<Rightarrow> (p', Inr (n + k)))"

definition top_level_step ::
  "(para \<Rightarrow> error + (para \<times> nat)) \<Rightarrow> block \<Rightarrow> nat \<Rightarrow> block \<times> (error + nat)" where
  "top_level_step f b n =
     (case b of
        Para p \<Rightarrow> (case paragraph_step f p n of (p', r) \<Rightarrow> (Para p', r))
      | Tbl t \<Rightarrow> (Tbl t, Inr n))"

definition table_step ::
  "(para \<Rightarrow> error + (para \<times> nat)) \<Rightarrow> block \<Rightarrow> nat \<Rightarrow> block \<times> (error + nat)" where
  "table_step f b n =
     (case b of
        Para p \<Rightarrow> (Para p, Inr n)
      | Tbl t \<Rightarrow>
          (case for_each (for_each (for_each (paragraph_step f))) t n of
             (t', r) \<Rightarrow> (Tbl t', r)))"

text \<open>
  \<open>find_and_replace_text\<close>. The processor's \<open>self.document\<close> is \<open>None\<close> before a document
  is loaded. The result is the returned count or the raised error, with the document as
  the call leaves it.
\<close>

definition find_and_replace_text ::
  "document option \<Rightarrow> string \<Rightarrow> string \<Rightarrow> bool \<Rightarrow> bool
     \<Rightarrow> (error + nat) \<times> document option" where
  "find_and_replace_text self_document search_text replace_text preserve_formatting
       case_sensitive =
     (case self_document of
        None \<Rightarrow> (Inl EditOperationError, None)
      | Some d \<Rightarrow>
          (let f = replace_text_in_paragraph search_text replace_text preserve_formatting
                     case_sensitive
           in case for_each (top_level_step f) (body d) 0 of
                (body1, Inl e) \<Rightarrow> (Inl EditOperationError, Some (d\<lparr>body := body1\<rparr>))
              | (body1, Inr n1) \<Rightarrow>
                  (case for_each (table_step f) body1 n1 of
                     (body2, Inl e) \<Rightarrow> (Inl EditOperationError, Some (d\<lparr>body := body2\<rparr>))
                   | (body2, Inr n2) \<Rightarrow> (Inr n2, Some (d\<lparr>body := body2\<rparr>)))))"

text \<open>\<open>get_document_text\<close>: the texts of the top-level paragraphs, joined by newlines.\<close>

fun join :: "string \<Rightarrow> string list \<Rightarrow> string" where
  "join sep [] = []"
| "join sep [x] = x"
| "join sep (x # y # ys) = x @ sep @ join sep (y # ys)"

definition get_document_text :: "document option \<Rightarrow> string" where
  "get_document_text self_document =
     (case self_document of
        None \<Rightarrow> []
      | Some d \<Rightarrow> join [CHR 0x0A] (map paragraph_text (doc_paragraphs d)))"

section \<open>Substitution as the specification words it\<close>

text \<open>
  The character map after a substitution, read from left to right: at a match the
  replacement's characters stand in, each with the formatting of the first matched
  character; any other entry is kept.
\<close>

function substitute_map :: "bool \<Rightarrow> string \<Rightarrow> string \<Rightarrow> char_map \<Rightarrow> char_map" where
  "substitute_map case_sensitive pat repl m =
     (if pat = [] \<or> m = [] then m
      else if matches_here case_sensitive pat (map fst m)
        then map (\<lambda>c. (c, snd (hd m))) repl
               @ substitute_map case_sensitive pat repl (drop (length pat) m)
      else hd m # substitute_map case_sensitive pat repl (tl m))"
  by pat_completeness auto
termination
  by (relation "measure (\<lambda>(cs, pat, repl, m). length m)") auto

text \<open>
  The text with the replacement substituted for each occurrence, from left to right,
  and the number of occurrences.
\<close>

definition substituted :: "bool \<Rightarrow> string \<Rightarrow> string \<Rightarrow> string \<Rightarrow> string" where
  "substituted case_sensitive search repl txt =
     sub_spans (finditer case_sensitive search txt 0) (\<lambda>w. repl) txt 0"

definition occurrences :: "bool \<Rightarrow> string \<Rightarrow> string \<Rightarrow> nat" where
  "occurrences case_sensitive search txt = length (finditer case_sensitive search txt 0)"

text \<open>The formatting a rebuilt run shows for the formatting it was built from.\<close>

definition applied :: "formatting \<Rightarrow> formatting" where
  "applied f = extract_run_formatting (apply_run_formatting (add_run []) f)"

text \<open>
  Every paragraph that \<open>find_and_replace_text\<close> visits, in the order of the visit: the
  top-level paragraphs, then the paragraphs of the cells of the tables.
\<close>

definition all_paragraphs :: "document \<Rightarrow> para list" where
  "all_paragraphs d = doc_paragraphs d @ concat (concat (concat (doc_tables d)))"

text \<open>The paragraphs of one block, and a change of the paragraphs of one block.\<close>

definition block_paragraphs :: "block \<Rightarrow> para list" where
  "block_paragraphs b = (case b of Para p \<Rightarrow> [p] | Tbl t \<Rightarrow> [])"

definition block_cell_paragraphs :: "block \<Rightarrow> para list" where
  "block_cell_paragraphs b = (case b of Para p \<Rightarrow> [] | Tbl t \<Rightarrow> concat (concat t))"

definition map_top_level :: "(para \<Rightarrow> para) \<Rightarrow> block \<Rightarrow> block" where
  "map_top_level h b = (case b of Para p \<Rightarrow> Para (h p) | Tbl t \<Rightarrow> Tbl t)"

definition map_cells :: "(para \<Rightarrow> para) \<Rightarrow> block \<Rightarrow> block" where
  "map_cells h b = (case b of Para p \<Rightarrow> Para p | Tbl t \<Rightarrow> Tbl (map (map (map h)) t))"




section \<open>Bullet expansion (replace\_with\_bullet\_points)\<close>

definition startswith :: "string \<Rightarrow> string \<Rightarrow> bool" where
  "startswith s p = (take (length p) s = p)"

text \<open>\<open>str.find\<close>: the index of the first occurrence, or -1.\<close>

fun py_find_from :: "string \<Rightarrow> string \<Rightarrow> nat \<Rightarrow> int" where
  "py_find_from s [] i = (if s = [] then int i else - 1)"
| "py_find_from s (c # cs) i =
     (if take (length s) (c # cs) = s then int i else py_find_from s cs (Suc i))"

definition py_find :: "string \<Rightarrow> string \<Rightarrow> int" where
  "py_find full_text s = py_find_from s full_text 0"

text \<open>
  \<open>_find_template_bullet_formatting\<close>: the formatting of the first run of the first
  top-level paragraph that starts with a bullet and holds the marker phrase.
\<close>

fun find_template_bullet_formatting :: "para list \<Rightarrow> formatting option" where
  "find_template_bullet_formatting [] = None"
| "find_template_bullet_formatting (p # ps) =
     (let paragraph_text = strip (paragraph_text p)
      in if startswith paragraph_text [bullet]
            \<and> py_in ''add highlights with this style'' (lower paragraph_text)
         then (if runs p \<noteq> [] then Some (extract_run_formatting (hd (runs p)))
               else find_template_bullet_formatting ps)
         else find_template_bullet_formatting ps)"

text \<open>
  The first top-level paragraph whose text contains the search text, with its index among
  the children of the body (\<open>list(parent_element).index(paragraph._element)\<close>).
\<close>

fun first_containing :: "string \<Rightarrow> block list \<Rightarrow> nat \<Rightarrow> (nat \<times> para) option" where
  "first_containing s [] i = None"
| "first_containing s (Para p # bs) i =
     (if py_in s (paragraph_text p) then Some (i, p) else first_containing s bs (Suc i))"
| "first_containing s (Tbl t # bs) i = first_containing s bs (Suc i)"

text \<open>
  \<open>document.add_paragraph()\<close> appends the new paragraph to the body, and
  \<open>parent_element.insert(k, element)\<close> then moves it before the child at index \<open>k\<close>
  (to the end when there is none).
\<close>

definition move_last_to :: "nat \<Rightarrow> 'a list \<Rightarrow> 'a list" where
  "move_last_to k xs =
     (if xs = [] then [] else take k (butlast xs) @ [last xs] @ drop k (butlast xs))"

definition new_bullet_paragraph :: "document \<Rightarrow> formatting option \<Rightarrow> string \<Rightarrow> para" where
  "new_bullet_paragraph d template_bullet_style item =
     (let bullet_run = add_run (bullet # CHR '' '' # item);
          bullet_run' = (case template_bullet_style of
                           Some f \<Rightarrow> apply_run_formatting bullet_run f
                         | None \<Rightarrow> bullet_run)
      in apply_bullet_formatting d (empty_paragraph\<lparr>runs := [bullet_run']\<rparr>))"

fun insert_bullets ::
  "document \<Rightarrow> formatting option \<Rightarrow> nat \<Rightarrow> nat \<Rightarrow> string list \<Rightarrow> block list \<Rightarrow> block list" where
  "insert_bullets d template_bullet_style paragraph_index i [] bs = bs"
| "insert_bullets d template_bullet_style paragraph_index i (item # items) bs =
     insert_bullets d template_bullet_style paragraph_index (Suc i) items
       (move_last_to (paragraph_index + i)
          (bs @ [Para (new_bullet_paragraph d template_bullet_style item)]))"

text \<open>
  \<open>replace_with_bullet_points\<close>. Nothing here catches an exception of the replacement.
\<close>

definition replace_with_bullet_points ::
  "document option \<Rightarrow> string \<Rightarrow> string list \<Rightarrow> (error + nat) \<times> document option" where
  "replace_with_bullet_points self_document search_text bullet_items =
     (case self_document of
        None \<Rightarrow> (Inr 0, None)
      | Some d \<Rightarrow>
          if bullet_items = [] then (Inr 0, Some d)
          else
            (let template_bullet_style = find_template_bullet_formatting (doc_paragraphs d)
             in case first_containing search_text (body d) 0 of
                  None \<Rightarrow> (Inr 0, Some d)
                | Some (paragraph_index, p) \<Rightarrow>
                    if py_find (paragraph_text p) search_text \<noteq> - 1 then
                      (case replace_with_formatting_preservation p search_text
                              (bullet # CHR '' '' # hd bullet_items) False of
                         Inl e \<Rightarrow> (Inl e, Some d)
                       | Inr (p', count) \<Rightarrow>
                           if count > 0 then
                             (Inr count,
                              Some (d\<lparr>body :=
                                insert_bullets d template_bullet_style paragraph_index 1
                                  (tl bullet_items)
                                  ((body d)[paragraph_index :=
                                      Para (apply_bullet_formatting d p')])\<rparr>))
                           else (Inr 0, Some (d\<lparr>body := (body d)[paragraph_index := Para p']\<rparr>)))
                    else (Inr 0, Some d)))"


section \<open>Placeholder expansion (apply\_json\_template\_replacement)\<close>

text \<open>
  \<open>re.findall\<close> for the pattern of a placeholder: two opening braces, one or more
  characters other than a closing brace, two closing braces. The scan takes the leftmost
  match, gives the characters between the braces, and goes on after the match.
\<close>

function findall_placeholders :: "string \<Rightarrow> string list" where
  "findall_placeholders s =
     (if s = [] then []
      else
        (let body = takeWhile (\<lambda>c. c \<noteq> CHR ''}'') (drop 2 s);
             rest = dropWhile (\<lambda>c. c \<noteq> CHR ''}'') (drop 2 s)
         in if take 2 s = ''{{'' \<and> body \<noteq> [] \<and> take 2 rest = ''}}''
            then body # findall_placeholders (drop 2 rest)
            else findall_placeholders (tl s)))"
  by pat_completeness auto
termination
proof (relation "measure length", goal_cases)
  case 1
  show ?case by simp
next
  case (2 s body rest)
  have "length (dropWhile (\<lambda>c. c \<noteq> CHR ''}'') (drop 2 s)) \<le> length s"
    by (rule order_trans [OF length_dropWhile_le]) simp
  with 2 show ?case by (cases s) auto
next
  case (3 s body rest)
  then show ?case by (cases s) auto
qed

definition default_short_mappings :: "(string \<times> string) list" where
  "default_short_mappings =
     [(''{{NAME}}'', ''name''),
      (''{{name}}'', ''name''),
      (''{{professional_summary}}'', ''professional_summary''),
      (''{{PROFESSIONAL_SUMMARY}}'', ''professional_summary''),
      (''{{TECHNICAL_SKILLS}}'', ''technical_skills''),
      (''{{technical_skills}}'', ''technical_skills''),
      (''{{highlights1}}'', ''highlights1''),
      (''{{highlights2}}'', ''highlights2''),
      (''{{highlights3}}'', ''highlights3''),
      (''{{projects1}}'', ''projects1''),
      (''{{projects2}}'', ''projects2''),
      (''{{project1_highlights}}'', ''project1_highlights''),
      (''{{project2_highlights}}'', ''project2_highlights''),
      (''{{education}}'', ''education'')]"

text \<open>
  Truth of a value, for \<open>if not self.resume_data\<close> and \<open>if custom_mappings\<close>, and the
  items of a list.
\<close>

definition py_truthy :: "json \<Rightarrow> bool" where
  "py_truthy v =
     (case v of
        JNull \<Rightarrow> False
      | JBool b \<Rightarrow> b
      | JNum n \<Rightarrow> n \<noteq> 0
      | JStr s \<Rightarrow> s \<noteq> []
      | JList xs \<Rightarrow> xs \<noteq> []
      | JDict kvs \<Rightarrow> kvs \<noteq> [])"

definition list_items :: "json \<Rightarrow> json list" where
  "list_items v = (case v of JList xs \<Rightarrow> xs | _ \<Rightarrow> [])"

text \<open>
  The mappings in force: the defaults, overridden by the custom ones. A dictionary lookup
  compares the key as it is.
\<close>

definition all_mappings :: "(string \<times> string) list option \<Rightarrow> (string \<times> string) list" where
  "all_mappings custom_mappings =
     (case custom_mappings of
        None \<Rightarrow> default_short_mappings
      | Some c \<Rightarrow> (if c \<noteq> [] then c @ default_short_mappings else default_short_mappings))"

definition resolve_placeholder ::
  "json \<Rightarrow> (string \<times> string) list \<Rightarrow> string \<Rightarrow> error + json" where
  "resolve_placeholder resume_data mappings placeholder_key =
     (case map_of mappings placeholder_key of
        Some json_path \<Rightarrow> get_nested_json_value resume_data json_path
      | None \<Rightarrow> get_nested_json_value resume_data placeholder_key)"

definition denotes_bullets :: "string \<Rightarrow> bool" where
  "denotes_bullets placeholder_key =
     (py_in ''highlights'' (lower placeholder_key)
      \<or> py_in ''responsibilities'' (lower placeholder_key))"

text \<open>
  \<open>_format_json_value\<close>. Python's \<open>str\<close> of a value is a parameter, \<open>str_of\<close>.
\<close>

definition format_json_value :: "(json \<Rightarrow> string) \<Rightarrow> json \<Rightarrow> string \<Rightarrow> string" where
  "format_json_value str_of v placeholder_key =
     (if is_list v then
        (if py_in ''technical_skills'' (lower placeholder_key)
           then join '', '' (map str_of (list_items v))
         else if denotes_bullets placeholder_key then
           (if list_items v = [] then []
            else join [CHR 0x0A] (map (\<lambda>item. bullet # CHR '' '' # str_of item) (list_items v)))
         else join '', '' (map str_of (list_items v)))
      else str_of v)"

definition categorize_placeholder :: "string \<Rightarrow> string" where
  "categorize_placeholder placeholder_key =
     (let key_lower = lower placeholder_key
      in if py_in ''contact'' key_lower \<or> py_in ''phone'' key_lower
            \<or> py_in ''email'' key_lower \<or> py_in ''linkedin'' key_lower
           then ''contact_fields''
         else if py_in ''technical_skills'' key_lower then ''technical_skills''
         else if py_in ''professional_experience'' key_lower then ''professional_experience''
         else if py_in ''project'' key_lower then ''projects''
         else if py_in ''education'' key_lower then ''education''
         else ''basic_fields'')"

text \<open>
  The state of the loop: the document, the dictionary of counts, and the lines the loop
  prints about each placeholder (replaced so many times, not found in the document, no
  value in the data).
\<close>

datatype event = Replaced string nat | NotFound string | NoValue string

record expansion =
  loop_document :: "document option"
  replacements_made :: "(string \<times> nat) list"
  debug_log :: "event list"

definition initial_replacements :: "(string \<times> nat) list" where
  "initial_replacements =
     [(''basic_fields'', 0), (''contact_fields'', 0), (''technical_skills'', 0),
      (''professional_experience'', 0), (''projects'', 0), (''education'', 0),
      (''total_replacements'', 0)]"

definition dict_add :: "string \<Rightarrow> nat \<Rightarrow> (string \<times> nat) list \<Rightarrow> (string \<times> nat) list" where
  "dict_add key n d = map (\<lambda>(k, v). if k = key then (k, v + n) else (k, v)) d"

text \<open>The body of the loop over the placeholders found.\<close>

definition template_step ::
  "(json \<Rightarrow> string) \<Rightarrow> json \<Rightarrow> (string \<times> string) list \<Rightarrow> string \<Rightarrow> expansion
     \<Rightarrow> error + expansion" where
  "template_step str_of resume_data mappings placeholder st =
     (let placeholder_key = strip placeholder
      in case resolve_placeholder resume_data mappings placeholder_key of
           Inl e \<Rightarrow> Inl e
         | Inr replacement_value \<Rightarrow>
             if replacement_value \<noteq> JNull then
               (let full_placeholder = ''{{'' @ placeholder @ ''}}''
                in case (if is_list replacement_value \<and> denotes_bullets placeholder_key
                         then replace_with_bullet_points (loop_document st) full_placeholder
                                (map str_of (list_items replacement_value))
                         else find_and_replace_text (loop_document st) full_placeholder
                                (format_json_value str_of replacement_value placeholder_key)
                                True False) of
                     (Inl e, doc') \<Rightarrow> Inl e
                   | (Inr count, doc') \<Rightarrow>
                       if count > 0 then
                         Inr \<lparr>loop_document = doc',
                              replacements_made =
                                dict_add ''total_replacements'' count
                                  (dict_add (categorize_placeholder placeholder_key) count
                                     (replacements_made st)),
                              debug_log = debug_log st @ [Replaced full_placeholder count]\<rparr>
                       else
                         Inr \<lparr>loop_document = doc',
                              replacements_made = replacements_made st,
                              debug_log = debug_log st @ [NotFound full_placeholder]\<rparr>)
             else Inr (st\<lparr>debug_log := debug_log st @ [NoValue placeholder_key]\<rparr>))"

fun template_loop ::
  "(json \<Rightarrow> string) \<Rightarrow> json \<Rightarrow> (string \<times> string) list \<Rightarrow> string list \<Rightarrow> expansion
     \<Rightarrow> error + expansion" where
  "template_loop str_of resume_data mappings [] st = Inr st"
| "template_loop str_of resume_data mappings (placeholder # placeholders) st =
     (case template_step str_of resume_data mappings placeholder st of
        Inl e \<Rightarrow> Inl e
      | Inr st' \<Rightarrow> template_loop str_of resume_data mappings placeholders st')"

text \<open>
  \<open>apply_json_template_replacement\<close>, up to the end of its loop: the dictionary it
  returns, the lines printed, and the document as the loop leaves it. (After the loop the
  function calls \<open>_apply_bullet_formatting_to_document\<close>, which restyles bullet paragraphs
  and changes neither the dictionary nor what was printed.)
\<close>

definition apply_json_template_replacement ::
  "(json \<Rightarrow> string) \<Rightarrow> json option \<Rightarrow> document option \<Rightarrow> (string \<times> string) list option
     \<Rightarrow> error + expansion" where
  "apply_json_template_replacement str_of resume_data self_document custom_mappings =
     (case resume_data of
        None \<Rightarrow> Inl EditOperationError
      | Some data \<Rightarrow>
          if \<not> py_truthy data then Inl EditOperationError
          else
            (let doc_text = get_document_text self_document;
                 placeholders = findall_placeholders doc_text
             in template_loop str_of data (all_mappings custom_mappings) placeholders
                  \<lparr>loop_document = self_document,
                   replacements_made = initial_replacements,
                   debug_log = []\<rparr>))"

text \<open>What a printed line says about a placeholder.\<close>

fun reports :: "event \<Rightarrow> string \<Rightarrow> bool" where
  "reports (Replaced full_placeholder n) placeholder =
     (full_placeholder = ''{{'' @ placeholder @ ''}}'' \<and> 0 < n)"
| "reports (NotFound full_placeholder) placeholder =
     (full_placeholder = ''{{'' @ placeholder @ ''}}'')"
| "reports (NoValue placeholder_key) placeholder = (placeholder_key = strip placeholder)"

section \<open>Matching and substitution\<close>

text \<open>
  The recursive equations of the scanning functions are unfolded one step at a time, by
  the lemmas below.
\<close>

declare finditer.simps [simp del] py_replace.simps [simp del] py_count.simps [simp del]
  substitute_map.simps [simp del] parse_template.simps [simp del]

lemma matches_here_length:
  "matches_here cs pat txt \<Longrightarrow> length pat \<le> length txt"
proof -
  assume "matches_here cs pat txt"
  then have "length (take (length pat) (fold_case cs txt)) = length (fold_case cs pat)"
    unfolding matches_here_def by simp
  then show ?thesis by (simp add: fold_case_def lower_def split: if_splits)
qed

lemma finditer_Nil: "pat \<noteq> [] \<Longrightarrow> finditer cs pat [] pos = []"
  by (subst finditer.simps) simp

lemma finditer_match:
  "pat \<noteq> [] \<Longrightarrow> matches_here cs pat txt \<Longrightarrow>
   finditer cs pat txt pos
     = (pos, pos + length pat) # finditer cs pat (drop (length pat) txt) (pos + length pat)"
proof -
  assume a: "pat \<noteq> []" "matches_here cs pat txt"
  have "txt \<noteq> []" using matches_here_length[OF a(2)] a(1) by auto
  with a show ?thesis
    by (subst finditer.simps) (simp only: if_False if_True simp_thms)
qed

lemma finditer_nomatch:
  "pat \<noteq> [] \<Longrightarrow> \<not> matches_here cs pat txt \<Longrightarrow> txt \<noteq> [] \<Longrightarrow>
   finditer cs pat txt pos = finditer cs pat (tl txt) (Suc pos)"
  by (subst finditer.simps) (simp only: if_False simp_thms)

lemma substitute_map_Nil: "substitute_map cs pat repl [] = []"
  by (subst substitute_map.simps) simp

lemma substitute_map_match:
  "pat \<noteq> [] \<Longrightarrow> matches_here cs pat (map fst m) \<Longrightarrow>
   substitute_map cs pat repl m
     = map (\<lambda>c. (c, snd (hd m))) repl @ substitute_map cs pat repl (drop (length pat) m)"
proof -
  assume a: "pat \<noteq> []" "matches_here cs pat (map fst m)"
  have "m \<noteq> []" using matches_here_length[OF a(2)] a(1) by auto
  with a show ?thesis
    by (subst substitute_map.simps) (simp only: if_False if_True simp_thms)
qed

lemma substitute_map_nomatch:
  "pat \<noteq> [] \<Longrightarrow> \<not> matches_here cs pat (map fst m) \<Longrightarrow> m \<noteq> [] \<Longrightarrow>
   substitute_map cs pat repl m = hd m # substitute_map cs pat repl (tl m)"
  by (subst substitute_map.simps) (simp only: if_False simp_thms)

lemma process_matches_append:
  "process_matches (xs @ ys) repl m n =
     (case process_matches xs repl m n of
        Inl e \<Rightarrow> Inl e
      | Inr (m', n') \<Rightarrow> process_matches ys repl m' n')"
  by (induction xs arbitrary: m n) auto

lemma process_matches_finditer:
  assumes "pat \<noteq> []"
  shows "process_matches (rev (finditer cs pat (map fst m) (length pre))) repl (pre @ m) n
         = Inr (pre @ substitute_map cs pat repl m,
                n + length (finditer cs pat (map fst m) (length pre)))"
proof (induction "length m" arbitrary: m pre n rule: less_induct)
  case less
  show ?case
  proof (cases "m = []")
    case True
    then show ?thesis using assms
      by (simp add: finditer_Nil substitute_map_Nil)
  next
    case False
    show ?thesis
    proof (cases "matches_here cs pat (map fst m)")
      case True
      let ?k = "length pat"
      let ?rest = "substitute_map cs pat repl (drop ?k m)"
      have k: "?k \<le> length m" "0 < ?k" using matches_here_length[OF True] assms by auto
      have lt: "length (drop ?k m) < length m" using k False by simp
      have split: "pre @ m = (pre @ take ?k m) @ drop ?k m" by simp
      have len: "length (pre @ take ?k m) = length pre + ?k" using k by simp
      have ih: "process_matches (rev (finditer cs pat (map fst (drop ?k m)) (length pre + ?k))) repl (pre @ m) n
         = Inr ((pre @ take ?k m) @ ?rest,
                n + length (finditer cs pat (map fst (drop ?k m)) (length pre + ?k)))"
        using less[OF lt, of "pre @ take ?k m" n] by (simp only: len split[symmetric])
      have fi: "finditer cs pat (map fst m) (length pre)
            = (length pre, length pre + ?k) # finditer cs pat (map fst (drop ?k m)) (length pre + ?k)"
        using finditer_match[OF assms True] by (simp only: drop_map)
      have sm: "substitute_map cs pat repl m = map (\<lambda>c. (c, snd (hd m))) repl @ ?rest"
        by (rule substitute_map_match[OF assms True])
      have nth: "((pre @ take ?k m) @ ?rest) ! length pre = hd m"
        using k False by (cases m) (auto simp: nth_append)
      have lenlt: "length pre < length ((pre @ take ?k m) @ ?rest)"
        using k by simp
      have tk: "take (length pre) ((pre @ take ?k m) @ ?rest) = pre"
        by simp
      have dr: "drop (length pre + ?k) ((pre @ take ?k m) @ ?rest) = ?rest"
        using k by simp
      have step: "process_matches [(length pre, length pre + ?k)] repl ((pre @ take ?k m) @ ?rest) k0
           = Inr (pre @ map (\<lambda>c. (c, snd (hd m))) repl @ ?rest, k0 + 1)" for k0
        by (simp only: process_matches.simps lenlt if_True nth tk dr)
      show ?thesis
        unfolding fi sm
        by (simp only: rev.simps process_matches_append ih sum.case prod.case step list.size)
           simp
    next
      case nm: False
      have lt: "length (tl m) < length m" using False by (cases m) auto
      have split: "pre @ m = (pre @ [hd m]) @ tl m" using False by simp
      have ih: "process_matches (rev (finditer cs pat (map fst (tl m)) (Suc (length pre)))) repl (pre @ m) n
         = Inr ((pre @ [hd m]) @ substitute_map cs pat repl (tl m),
                n + length (finditer cs pat (map fst (tl m)) (Suc (length pre))))"
        using less[OF lt, of "pre @ [hd m]" n] unfolding split[symmetric] by simp
      have fi: "finditer cs pat (map fst m) (length pre)
            = finditer cs pat (map fst (tl m)) (Suc (length pre))"
        using finditer_nomatch[OF assms nm] False by (simp add: map_tl)
      have sm: "substitute_map cs pat repl m = hd m # substitute_map cs pat repl (tl m)"
        by (rule substitute_map_nomatch[OF assms nm False])
      show ?thesis
        unfolding fi sm by (simp add: ih)
    qed
  qed
qed










lemma sub_spans_substitute_map:
  assumes "pat \<noteq> []"
  shows "p \<le> length pre \<Longrightarrow>
         sub_spans (finditer cs pat (map fst m) (length pre)) (\<lambda>w. repl) (pre @ map fst m) p
         = drop p pre @ map fst (substitute_map cs pat repl m)"
proof (induction "length m" arbitrary: m pre p rule: less_induct)
  case less
  show ?case
  proof (cases "m = []")
    case True
    then show ?thesis using assms by (simp add: substitute_map_Nil finditer_Nil)
  next
    case False
    show ?thesis
    proof (cases "matches_here cs pat (map fst m)")
      case True
      let ?k = "length pat"
      have k: "?k \<le> length m" using matches_here_length[OF True] by simp
      have lt: "length (drop ?k m) < length m" using False assms by simp
      have ih: "sub_spans (finditer cs pat (drop ?k (map fst m)) (length pre + ?k)) (\<lambda>w. repl)
                   (pre @ map fst m) (length pre + ?k)
                = map fst (substitute_map cs pat repl (drop ?k m))"
      proof -
        have e: "(pre @ take ?k (map fst m)) @ map fst (drop ?k m) = pre @ map fst m"
          by (simp add: drop_map[symmetric])
        have l: "length (pre @ take ?k (map fst m)) = length pre + ?k" using k by simp
        show ?thesis
          using less(1)[OF lt, of "length pre + ?k" "pre @ take ?k (map fst m)"]
          unfolding e l by (simp add: drop_map)
      qed
      show ?thesis
        using less(2)
        by (simp only: substitute_map_match[OF assms True] finditer_match[OF assms True]
              sub_spans.simps ih) (simp add: comp_def)
    next
      case nm: False
      have lt: "length (tl m) < length m" using False by (cases m) auto
      have ne: "map fst m \<noteq> []" using False by simp
      have ih: "sub_spans (finditer cs pat (tl (map fst m)) (Suc (length pre))) (\<lambda>w. repl)
                   (pre @ map fst m) p
                = drop p pre @ fst (hd m) # map fst (substitute_map cs pat repl (tl m))"
        using less(1)[OF lt, of p "pre @ [fst (hd m)]"] less(2) False
        by (cases m) (simp_all add: map_tl)
      show ?thesis
        by (simp only: substitute_map_nomatch[OF assms nm False] finditer_nomatch[OF assms nm ne] ih)
           simp
    qed
  qed
qed

section \<open>Rebuilding a paragraph\<close>

lemma run_text_apply [simp]: "run_text (apply_run_formatting r f) = run_text r"
  by (simp add: apply_run_formatting_def Let_def)

lemma run_text_add_run [simp]: "run_text (add_run t) = t"
  by (simp add: add_run_def)

lemma extract_apply_add_run:
  "extract_run_formatting (apply_run_formatting (add_run t) f) = applied f"
  by (simp add: applied_def extract_run_formatting_def apply_run_formatting_def add_run_def
      Let_def)

lemma rebuild_loop_map:
  "concat (map (\<lambda>r. map (\<lambda>c. (c, extract_run_formatting r)) (run_text r))
            (rebuild_loop items cur f acc))
   = concat (map (\<lambda>r. map (\<lambda>c. (c, extract_run_formatting r)) (run_text r)) acc)
       @ map (\<lambda>c. (c, applied f)) cur
       @ map (\<lambda>x. (fst x, applied (snd x))) items"
proof (induction items arbitrary: cur f acc)
  case Nil
  show ?case by (simp add: extract_apply_add_run)
next
  case (Cons item items)
  show ?case
    by (simp add: Cons.IH extract_apply_add_run)
qed

lemma char_to_run_map_rebuild:
  "char_to_run_map (rebuild_paragraph_with_formatting p m)
   = map (\<lambda>x. (fst x, applied (snd x))) m"
  by (simp add: char_to_run_map_def rebuild_paragraph_with_formatting_def rebuild_loop_map)

lemma paragraph_text_char_map: "map fst (char_to_run_map p) = paragraph_text p"
  by (simp add: char_to_run_map_def paragraph_text_def map_concat comp_def)

lemma paragraph_text_rebuild:
  "paragraph_text (rebuild_paragraph_with_formatting p m) = map fst m"
  unfolding paragraph_text_char_map[symmetric] char_to_run_map_rebuild
  by (simp add: comp_def)







section \<open>The passes over the document\<close>

lemma preservation_result:
  assumes "search \<noteq> []"
  shows "replace_with_formatting_preservation p search repl cs =
     (if finditer cs search (paragraph_text p) 0 = [] then Inr (p, 0)
      else Inr (rebuild_paragraph_with_formatting p
                  (substitute_map cs search repl (char_to_run_map p)),
                occurrences cs search (paragraph_text p)))"
proof -
  have pm: "process_matches (rev (finditer cs search (map fst (char_to_run_map p)) 0)) repl
              (char_to_run_map p) 0
            = Inr (substitute_map cs search repl (char_to_run_map p),
                   length (finditer cs search (map fst (char_to_run_map p)) 0))"
    using process_matches_finditer[OF assms, of cs "char_to_run_map p" "[]" repl 0] by simp
  show ?thesis
    unfolding replace_with_formatting_preservation_def Let_def pm
    by (simp add: paragraph_text_char_map occurrences_def)
qed

lemma for_each_total:
  assumes "\<And>x n. g x n = (h x, Inr (n + k x))"
  shows "for_each g xs n = (map h xs, Inr (n + sum_list (map k xs)))"
  by (induction xs arbitrary: n) (simp_all add: assms add.assoc)

lemma sum_list_map_concat:
  "sum_list (map k (concat xss)) = sum_list (map (\<lambda>xs. sum_list (map k xs)) xss)"
  by (induction xss) simp_all

lemma all_paragraphs_blocks:
  "all_paragraphs d
   = concat (map block_paragraphs (body d)) @ concat (map block_cell_paragraphs (body d))"
proof -
  have "concat (concat (concat (concat (map (\<lambda>b. case b of Para p \<Rightarrow> [] | Tbl t \<Rightarrow> [t]) bs))))
        = concat (map block_cell_paragraphs bs)" for bs
    by (induction bs) (auto simp: block_cell_paragraphs_def split: block.splits)
  moreover have "(\<lambda>b. case b of Para p \<Rightarrow> [p] | Tbl t \<Rightarrow> []) = block_paragraphs"
    by (rule ext) (simp add: block_paragraphs_def)
  ultimately show ?thesis
    by (simp add: all_paragraphs_def doc_paragraphs_def doc_tables_def)
qed

lemma top_level_pass:
  assumes "\<And>p. f p = Inr (h p, k p)"
  shows "for_each (top_level_step f) bs n =
     (map (map_top_level h) bs, Inr (n + sum_list (map k (concat (map block_paragraphs bs)))))"
proof -
  have st: "top_level_step f b n
            = (map_top_level h b, Inr (n + sum_list (map k (block_paragraphs b))))" for b n
    by (cases b)
       (simp_all add: top_level_step_def paragraph_step_def assms map_top_level_def
          block_paragraphs_def)
  show ?thesis
    unfolding for_each_total[of "top_level_step f", OF st]
    by (simp add: sum_list_map_concat comp_def)
qed

lemma table_pass:
  assumes "\<And>p. f p = Inr (h p, k p)"
  shows "for_each (table_step f) bs n =
     (map (map_cells h) bs, Inr (n + sum_list (map k (concat (map block_cell_paragraphs bs)))))"
proof -
  have s1: "paragraph_step f p n = (h p, Inr (n + k p))" for p n
    by (simp add: paragraph_step_def assms)
  have c1: "for_each (paragraph_step f) c n = (map h c, Inr (n + sum_list (map k c)))" for c n
    by (rule for_each_total[OF s1])
  have c2: "for_each (for_each (paragraph_step f)) r n
              = (map (map h) r, Inr (n + sum_list (map k (concat r))))" for r n
    unfolding for_each_total[of "for_each (paragraph_step f)", OF c1]
    by (simp add: sum_list_map_concat)
  have c3: "for_each (for_each (for_each (paragraph_step f))) t n
              = (map (map (map h)) t, Inr (n + sum_list (map k (concat (concat t)))))" for t n
    unfolding for_each_total[of "for_each (for_each (paragraph_step f))", OF c2]
    by (simp add: sum_list_map_concat[of k "concat t"] sum_list_map_concat[of "\<lambda>r. sum_list (map k r)"]
          sum_list_map_concat comp_def)
  have st: "table_step f b n
            = (map_cells h b, Inr (n + sum_list (map k (block_cell_paragraphs b))))" for b n
    by (cases b) (simp_all add: table_step_def c3 map_cells_def block_cell_paragraphs_def)
  show ?thesis
    unfolding for_each_total[of "table_step f", OF st]
    by (simp add: sum_list_map_concat comp_def)
qed

lemma block_paragraphs_maps:
  "block_cell_paragraphs (map_top_level h b) = block_cell_paragraphs b"
  "block_paragraphs (map_cells h b) = block_paragraphs b"
  "block_paragraphs (map_top_level h b) = map h (block_paragraphs b)"
  "block_cell_paragraphs (map_cells h b) = map h (block_cell_paragraphs b)"
  by (cases b; simp add: block_paragraphs_def block_cell_paragraphs_def map_cells_def
        map_top_level_def map_concat)+

lemma find_and_replace_total:
  assumes "\<And>p. replace_text_in_paragraph search repl preserve cs p = Inr (h p, k p)"
  shows "\<exists>d'. find_and_replace_text (Some d) search repl preserve cs
                 = (Inr (sum_list (map k (all_paragraphs d))), Some d')
             \<and> all_paragraphs d' = map h (all_paragraphs d)"
proof -
  let ?f = "replace_text_in_paragraph search repl preserve cs"
  let ?b2 = "map (map_cells h) (map (map_top_level h) (body d))"
  have r: "find_and_replace_text (Some d) search repl preserve cs
        = (Inr (sum_list (map k (all_paragraphs d))), Some (d\<lparr>body := ?b2\<rparr>))"
    unfolding find_and_replace_text_def Let_def
    by (simp add: top_level_pass[of ?f h k, OF assms] table_pass[of ?f h k, OF assms]
        block_paragraphs_maps all_paragraphs_blocks comp_def)
  have "all_paragraphs (d\<lparr>body := ?b2\<rparr>) = map h (all_paragraphs d)"
    by (simp add: all_paragraphs_blocks block_paragraphs_maps comp_def map_concat)
  with r show ?thesis by blast
qed


section \<open>Replacement in one paragraph, case-sensitive\<close>




lemma substituted_unchanged:
  "finditer cs search s 0 = [] \<Longrightarrow> substituted cs search repl s = s"
  by (simp add: substituted_def)


section \<open>Rebuilding what was there\<close>











section \<open>Path resolution\<close>




section \<open>Bullet expansion\<close>








lemma substituted_map:
  "search \<noteq> [] \<Longrightarrow>
   map fst (substitute_map cs search repl (char_to_run_map p))
   = substituted cs search repl (paragraph_text p)"
  using sub_spans_substitute_map[of search 0 "[]" cs "char_to_run_map p" repl]
  by (simp add: substituted_def paragraph_text_char_map)


section \<open>Matching with and without case\<close>

lemma fold_case_simps:
  "fold_case cs [] = []"
  "fold_case cs (c # s) = (if cs then c else lower_char c) # fold_case cs s"
  "length (fold_case cs s) = length s"
  by (simp_all add: fold_case_def lower_def)

lemma matches_here_fold:
  "matches_here cs pat s
   \<longleftrightarrow> take (length (fold_case cs pat)) (fold_case cs s) = fold_case cs pat"
  by (simp add: matches_here_def fold_case_simps)

lemma finditer_iff_py_in:
  assumes "pat \<noteq> []"
  shows "finditer cs pat s pos \<noteq> [] \<longleftrightarrow> py_in (fold_case cs pat) (fold_case cs s)"
proof (induction s arbitrary: pos)
  case Nil
  show ?case using assms by (simp add: finditer_Nil fold_case_def lower_def)
next
  case (Cons c s)
  show ?case
  proof (cases "matches_here cs pat (c # s)")
    case True
    then have "py_in (fold_case cs pat) (fold_case cs (c # s))"
      unfolding matches_here_fold by (simp add: fold_case_simps)
    then show ?thesis by (simp add: finditer_match[OF assms True])
  next
    case False
    then have "py_in (fold_case cs pat) (fold_case cs (c # s))
               \<longleftrightarrow> py_in (fold_case cs pat) (fold_case cs s)"
      unfolding matches_here_fold by (simp add: fold_case_simps)
    then show ?thesis
      using Cons.IH[of "Suc pos"] by (simp add: finditer_nomatch[OF assms False])
  qed
qed

lemma replace_text_in_paragraph_preserving:
  assumes "search \<noteq> []"
  shows "\<exists>p'. replace_text_in_paragraph search repl True cs p
               = Inr (p', occurrences cs search (paragraph_text p))
             \<and> paragraph_text p' = substituted cs search repl (paragraph_text p)"
proof (cases "finditer cs search (paragraph_text p) 0 = []")
  case True
  then have "replace_text_in_paragraph search repl True cs p = Inr (p, 0)"
    by (auto simp: replace_text_in_paragraph_def Let_def preservation_result[OF assms])
  then show ?thesis
    using True by (simp add: occurrences_def substituted_unchanged)
next
  case False
  then have i: "py_in (fold_case cs search) (fold_case cs (paragraph_text p))"
    using finditer_iff_py_in[OF assms] by blast
  have r: "runs p \<noteq> []"
  proof
    assume "runs p = []"
    then have "paragraph_text p = []" by (simp add: paragraph_text_def)
    with False assms show False by (simp add: finditer_Nil)
  qed
  have "replace_text_in_paragraph search repl True cs p
        = Inr (rebuild_paragraph_with_formatting p
                 (substitute_map cs search repl (char_to_run_map p)),
               occurrences cs search (paragraph_text p))"
    using r i False
    by (cases cs)
       (simp_all add: replace_text_in_paragraph_def Let_def preservation_result[OF assms]
          fold_case_def)
  then show ?thesis
    by (simp add: paragraph_text_rebuild substituted_map[OF assms])
qed

lemma find_and_replace_text_preserving:
  assumes "search \<noteq> []"
  shows "\<exists>d'. find_and_replace_text (Some d) search repl True cs
                 = (Inr (sum_list (map (\<lambda>p. occurrences cs search (paragraph_text p))
                                    (all_paragraphs d))), Some d')
             \<and> map paragraph_text (all_paragraphs d')
                 = map (\<lambda>p. substituted cs search repl (paragraph_text p)) (all_paragraphs d)"
proof -
  have "\<forall>p. \<exists>p'. replace_text_in_paragraph search repl True cs p
               = Inr (p', occurrences cs search (paragraph_text p))
             \<and> paragraph_text p' = substituted cs search repl (paragraph_text p)"
    using replace_text_in_paragraph_preserving[OF assms] by blast
  then obtain h where h:
    "\<And>p. replace_text_in_paragraph search repl True cs p
               = Inr (h p, occurrences cs search (paragraph_text p))"
    "\<And>p. paragraph_text (h p) = substituted cs search repl (paragraph_text p)"
    by metis
  from find_and_replace_total[of search repl True cs h
        "\<lambda>p. occurrences cs search (paragraph_text p)" d, OF h(1)]
  obtain d' where d': "find_and_replace_text (Some d) search repl True cs
        = (Inr (sum_list (map (\<lambda>p. occurrences cs search (paragraph_text p))
                           (all_paragraphs d))), Some d')"
     "all_paragraphs d' = map h (all_paragraphs d)" by blast
  have "map paragraph_text (all_paragraphs d')
        = map (\<lambda>p. substituted cs search repl (paragraph_text p)) (all_paragraphs d)"
    unfolding d'(2) by (simp add: h(2))
  with d'(1) show ?thesis by blast
qed

lemma replace_with_bullet_points_total:
  assumes "token \<noteq> []"
  shows "\<exists>n d'. replace_with_bullet_points (Some d) token items = (Inr n, Some d')"
proof (cases "items = []")
  case True
  then show ?thesis by (simp add: replace_with_bullet_points_def)
next
  case False
  show ?thesis
  proof (cases "first_containing token (body d) 0")
    case None
    then show ?thesis using False by (simp add: replace_with_bullet_points_def Let_def)
  next
    case (Some ip)
    obtain i p where ip: "ip = (i, p)" by (cases ip)
    obtain q n where pr:
      "replace_with_formatting_preservation p token (bullet # CHR '' '' # hd items) False
       = Inr (q, n)"
      by (cases "finditer False token (paragraph_text p) 0 = []")
         (simp_all add: preservation_result[OF assms])
    show ?thesis
      using False Some ip pr
      by (simp add: replace_with_bullet_points_def Let_def)
  qed
qed

section \<open>Replacement count and resulting text\<close>




section \<open>Formatting of the replacement\<close>




section \<open>Replacing a string by itself\<close>




section \<open>The empty search string\<close>

text \<open>
  C3. The claim is that an empty search string matches nowhere: 0 is returned and the
  document is unchanged. The code has no guard for it. On a document of one paragraph
  \<open>ab\<close>, without preservation \<open>str.replace\<close> puts the replacement at each of the three
  positions and 3 is returned; with preservation the pattern matches, empty, at every
  position, the last of them beyond the character map, and the IndexError leaves
  \<open>find_and_replace_text\<close> as an EditOperationError.
\<close>

theorem empty_search_not_guarded:
  "find_and_replace_text
     (Some \<lparr>body = [Para (empty_paragraph\<lparr>runs := [add_run ''ab'']\<rparr>)], styles = []\<rparr>)
     '''' ''X'' False True
   = (Inr 3, Some \<lparr>body = [Para (empty_paragraph\<lparr>runs := [add_run ''XaXbX'']\<rparr>)],
                   styles = []\<rparr>)
   \<and> find_and_replace_text
       (Some \<lparr>body = [Para (empty_paragraph\<lparr>runs := [add_run ''ab'']\<rparr>)], styles = []\<rparr>)
       '''' ''X'' True True
     = (Inl EditOperationError,
        Some \<lparr>body = [Para (empty_paragraph\<lparr>runs := [add_run ''ab'']\<rparr>)], styles = []\<rparr>)"
  by code_simp

section \<open>A failure in one paragraph\<close>




section \<open>The replacement as a template\<close>

text \<open>
  C10. Without preservation and ignoring case, the replacement goes to \<open>re.sub\<close> as a
  template: with \<open>[\g<0>]\<close> the text put in is the matched text in brackets, and \<open>\1\<close>,
  a reference to a group the pattern does not have, is an error. The case-sensitive path
  and the formatting-preserving path put in the same replacement as it is written.
\<close>

theorem ignorecase_replacement_is_a_template:
  "replace_text_in_paragraph ''hello'' (''['' @ [backslash] @ ''g<0>]'') False False
     (empty_paragraph\<lparr>runs := [add_run ''say Hello'']\<rparr>)
   = Inr (empty_paragraph\<lparr>runs := [add_run ''say [Hello]'']\<rparr>, 1)
   \<and> replace_text_in_paragraph ''hello'' ([backslash] @ ''1'') False False
       (empty_paragraph\<lparr>runs := [add_run ''say Hello'']\<rparr>)
     = Inl TemplateError
   \<and> replace_text_in_paragraph ''Hello'' (''['' @ [backslash] @ ''g<0>]'') False True
       (empty_paragraph\<lparr>runs := [add_run ''say Hello'']\<rparr>)
     = Inr (empty_paragraph\<lparr>runs := [add_run (''say ['' @ [backslash] @ ''g<0>]'')]\<rparr>, 1)
   \<and> replace_text_in_paragraph ''hello'' (''['' @ [backslash] @ ''g<0>]'') True False
       (empty_paragraph\<lparr>runs := [add_run ''say Hello'']\<rparr>)
     = Inr (empty_paragraph\<lparr>runs := [add_run (''say ['' @ [backslash] @ ''g<0>]'')]\<rparr>, 1)"
  by code_simp

section \<open>Bullet expansion of a token\<close>




end
